theory Spec2Isabelle
  imports Main "HOL-Library.Multiset" "HOL-Library.AList" "HOL-Library.Sublist"
begin

section \<open>LatestArtifactStrategy: data model\<close>

text \<open>
  The source is \<^verbatim>\<open>tfx/dsl/input_resolution/strategies/latest_artifact_strategy.py\<close>.
  An artifact is a record of which the strategy reads only the field \<^verbatim>\<open>id\<close>
  (an unbounded Python integer); everything else it carries is the record's extension,
  so the functions below are stated over \<open>'a artifact_scheme\<close>. The field is called
  \<open>artifact_id\<close> because \<open>id\<close> is HOL's identity function.
\<close>

record artifact =
  artifact_id :: int

text \<open>
  A Python \<^verbatim>\<open>dict\<close> keeps its items in insertion order and holds each key once. It is
  modelled as an association list; \<^verbatim>\<open>d[k] = v\<close> is \<open>AList.update k v d\<close>, which
  overwrites the value in place when the key is present and appends the item otherwise.
  A dictionary received from a caller has distinct keys.
\<close>

type_synonym ('k, 'v) dict = "('k \<times> 'v) list"

definition wf_dict :: "('k, 'v) dict \<Rightarrow> bool" where
  "wf_dict d = distinct (map fst d)"

text \<open>
  \<open>TypeError\<close> is the only exception the two methods can raise on well-typed
  artifacts: comparing an integer with \<^verbatim>\<open>None\<close> (\<^verbatim>\<open>min(len(...), None)\<close>,
  \<^verbatim>\<open>len(...) >= None\<close>). \<open>InvalidAddress\<close> is not a Python exception: it is the
  outcome of the store model below when an address holds no object of the class the code
  expects there, which cannot happen in a Python heap. The value model never yields it.
\<close>

datatype error = TypeError | InvalidAddress

text \<open>
  \<^verbatim>\<open>__init__(self, desired_num_of_artifacts: Optional[int] = 1)\<close> stores its argument
  unchecked. \<open>None\<close> is Python's \<^verbatim>\<open>None\<close>; a construction without the argument is
  \<open>init (Some 1)\<close>.
\<close>

record strategy =
  desired_num_of_artifact :: "int option"

definition init :: "int option \<Rightarrow> strategy" where
  "init desired_num_of_artifacts = \<lparr>desired_num_of_artifact = desired_num_of_artifacts\<rparr>"

section \<open>Python built-ins used by the strategy\<close>

text \<open>
  \<^verbatim>\<open>sorted(xs, key=key, reverse=True)\<close>: a new list, descending in \<open>key\<close>, elements
  with equal keys in their original order (Python's sort is stable also under
  \<^verbatim>\<open>reverse=True\<close>). A stable ascending insertion sort on the negated key computes it.
\<close>

definition sorted_reverse :: "('a \<Rightarrow> int) \<Rightarrow> 'a list \<Rightarrow> 'a list" where
  "sorted_reverse key xs = sort_key (\<lambda>a. - key a) xs"

text \<open>
  \<^verbatim>\<open>xs[:stop]\<close>: a negative \<open>stop\<close> counts from the end of the list, and the bounds
  are clipped to the list.
\<close>

definition slice_to :: "'a list \<Rightarrow> int \<Rightarrow> 'a list" where
  "slice_to xs stop =
     (if stop < 0 then take (nat (int (length xs) + stop)) xs else take (nat stop) xs)"

section \<open>The strategy\<close>

text \<open>
  \<^verbatim>\<open>_resolve\<close>: the loop over \<^verbatim>\<open>input_dict.items()\<close>, with the dictionary
  \<^verbatim>\<open>result\<close> as accumulator. \<^verbatim>\<open>min(len(sorted_artifact_list), None)\<close> raises.
\<close>

fun resolve_loop ::
  "strategy \<Rightarrow> (string \<times> 'a artifact_scheme list) list \<Rightarrow>
   (string, 'a artifact_scheme list) dict \<Rightarrow> error + (string, 'a artifact_scheme list) dict"
where
  "resolve_loop self [] result = Inr result"
| "resolve_loop self ((k, artifact_list) # items) result =
     (let sorted_artifact_list = sorted_reverse artifact_id artifact_list in
      case desired_num_of_artifact self of
        None \<Rightarrow> Inl TypeError
      | Some n \<Rightarrow>
          resolve_loop self items
            (AList.update k
               (slice_to sorted_artifact_list (min (int (length sorted_artifact_list)) n))
               result))"

definition resolve ::
  "strategy \<Rightarrow> (string, 'a artifact_scheme list) dict \<Rightarrow>
   error + (string, 'a artifact_scheme list) dict"
where
  "resolve self input_dict = resolve_loop self input_dict []"

text \<open>
  \<^verbatim>\<open>all(len(artifact_list) >= self._desired_num_of_artifact for artifact_list in values)\<close>:
  it stops at the first false comparison, and a comparison with \<^verbatim>\<open>None\<close> raises.
\<close>

fun all_min_count_met :: "strategy \<Rightarrow> 'b list list \<Rightarrow> error + bool" where
  "all_min_count_met self [] = Inr True"
| "all_min_count_met self (artifact_list # rest) =
     (case desired_num_of_artifact self of
        None \<Rightarrow> Inl TypeError
      | Some n \<Rightarrow>
          if n \<le> int (length artifact_list) then all_min_count_met self rest else Inr False)"

text \<open>
  \<^verbatim>\<open>resolve_artifacts\<close>; the metadata store is a parameter that the body never uses.
  \<open>Inr None\<close> is the returned \<^verbatim>\<open>None\<close> (unresolved), \<open>Inl\<close> a raised exception.
\<close>

definition resolve_artifacts ::
  "strategy \<Rightarrow> 'st \<Rightarrow> (string, 'a artifact_scheme list) dict \<Rightarrow>
   error + (string, 'a artifact_scheme list) dict option"
where
  "resolve_artifacts self store input_dict =
     (case resolve self input_dict of
        Inl e \<Rightarrow> Inl e
      | Inr resolved_dict \<Rightarrow>
          (case all_min_count_met self (map snd resolved_dict) of
             Inl e \<Rightarrow> Inl e
           | Inr met \<Rightarrow> Inr (if met then Some resolved_dict else None)))"

text \<open>
  The list that one pass of the loop body stores under a channel when the desired number
  is the integer \<open>n\<close>; a name for the expression, used to state lemmas.
\<close>

definition latest_n :: "int \<Rightarrow> 'a artifact_scheme list \<Rightarrow> 'a artifact_scheme list" where
  "latest_n n artifact_list =
     slice_to (sorted_reverse artifact_id artifact_list)
       (min (int (length (sorted_reverse artifact_id artifact_list))) n)"

section \<open>The strategy over an explicit store\<close>

text \<open>
  Python passes lists and dictionaries by reference, so whether a call changes the
  caller's objects cannot be read off the value model above. Here the two methods are
  embedded a second time, over a store: a list of objects in which an address is an
  index. \<^verbatim>\<open>sorted(...)\<close>, a slice \<^verbatim>\<open>xs[:m]\<close> and the literal \<^verbatim>\<open>{}\<close> each allocate a
  new object at the end of the store; \<^verbatim>\<open>result[k] = v\<close> overwrites the dictionary
  object at the address of \<^verbatim>\<open>result\<close>. A dictionary object maps its keys to the
  addresses of list objects. Artifacts are stored in the lists by value: the code only
  reads their \<^verbatim>\<open>id\<close>.
\<close>

type_synonym addr = nat

datatype 'a obj = PyList "'a list" | PyDict "(string, addr) dict"

type_synonym 'a heap = "'a obj list"

definition alloc :: "'a obj \<Rightarrow> 'a heap \<Rightarrow> addr \<times> 'a heap" where
  "alloc ob h = (length h, h @ [ob])"

text \<open>Reading an address as a list, or as a dictionary; \<open>None\<close> when no such object is there.\<close>

definition list_at :: "'a heap \<Rightarrow> addr \<Rightarrow> 'a list option" where
  "list_at h a =
     (if a < length h then (case h ! a of PyList xs \<Rightarrow> Some xs | PyDict es \<Rightarrow> None) else None)"

definition dict_at :: "'a heap \<Rightarrow> addr \<Rightarrow> (string, addr) dict option" where
  "dict_at h a =
     (if a < length h then (case h ! a of PyList xs \<Rightarrow> None | PyDict es \<Rightarrow> Some es) else None)"

text \<open>
  \<^verbatim>\<open>_resolve\<close>, the loop: \<open>items\<close> are the items of the input dictionary (keys and
  list addresses), \<open>result\<close> is the address of the dictionary being filled. The list
  object made by \<^verbatim>\<open>sorted\<close> is read again only by \<^verbatim>\<open>len\<close> and by the slice, right
  after its allocation, so its content is used directly.
\<close>

fun resolve_loop_h ::
  "strategy \<Rightarrow> (string \<times> addr) list \<Rightarrow> addr \<Rightarrow> 'a artifact_scheme heap \<Rightarrow>
   error + 'a artifact_scheme heap"
where
  "resolve_loop_h self [] result h = Inr h"
| "resolve_loop_h self ((k, artifact_list) # items) result h =
     (case list_at h artifact_list of
        None \<Rightarrow> Inl InvalidAddress
      | Some xs \<Rightarrow>
          (case alloc (PyList (sorted_reverse artifact_id xs)) h of
             (sorted_artifact_list, h1) \<Rightarrow>
               (case desired_num_of_artifact self of
                  None \<Rightarrow> Inl TypeError
                | Some n \<Rightarrow>
                    (case alloc (PyList (slice_to (sorted_reverse artifact_id xs)
                              (min (int (length (sorted_reverse artifact_id xs))) n))) h1 of
                       (sliced, h2) \<Rightarrow>
                         (case dict_at h2 result of
                            None \<Rightarrow> Inl InvalidAddress
                          | Some entries \<Rightarrow>
                              resolve_loop_h self items result
                                (h2[result := PyDict (AList.update k sliced entries)]))))))"

text \<open>
  \<^verbatim>\<open>_resolve\<close>: \<^verbatim>\<open>result = {}\<close>, then the loop; returns the address of \<^verbatim>\<open>result\<close>.
  The parameter \<open>input_dict\<close> is the address of the caller's dictionary, an object of
  the store the call starts from.
\<close>

definition resolve_h ::
  "strategy \<Rightarrow> addr \<Rightarrow> 'a artifact_scheme heap \<Rightarrow> error + addr \<times> 'a artifact_scheme heap"
where
  "resolve_h self input_dict h =
     (case alloc (PyDict []) h of
        (result, h0) \<Rightarrow>
          (case dict_at h0 input_dict of
             None \<Rightarrow> Inl InvalidAddress
           | Some items \<Rightarrow>
               (case resolve_loop_h self items result h0 of
                  Inl e \<Rightarrow> Inl e
                | Inr h' \<Rightarrow> Inr (result, h'))))"

text \<open>The \<^verbatim>\<open>all(...)\<close> over the values of the resolved dictionary, which are addresses.\<close>

fun all_min_count_met_h :: "strategy \<Rightarrow> 'a heap \<Rightarrow> addr list \<Rightarrow> error + bool" where
  "all_min_count_met_h self h [] = Inr True"
| "all_min_count_met_h self h (artifact_list # rest) =
     (case list_at h artifact_list of
        None \<Rightarrow> Inl InvalidAddress
      | Some xs \<Rightarrow>
          (case desired_num_of_artifact self of
             None \<Rightarrow> Inl TypeError
           | Some n \<Rightarrow>
               if n \<le> int (length xs) then all_min_count_met_h self h rest else Inr False))"

text \<open>\<^verbatim>\<open>resolve_artifacts\<close>: returns the address of the resolved dictionary, or \<^verbatim>\<open>None\<close>.\<close>

definition resolve_artifacts_h ::
  "strategy \<Rightarrow> 'st \<Rightarrow> addr \<Rightarrow> 'a artifact_scheme heap \<Rightarrow>
   error + addr option \<times> 'a artifact_scheme heap"
where
  "resolve_artifacts_h self store input_dict h =
     (case resolve_h self input_dict h of
        Inl e \<Rightarrow> Inl e
      | Inr (resolved_dict, h') \<Rightarrow>
          (case dict_at h' resolved_dict of
             None \<Rightarrow> Inl InvalidAddress
           | Some entries \<Rightarrow>
               (case all_min_count_met_h self h' (map snd entries) of
                  Inl e \<Rightarrow> Inl e
                | Inr met \<Rightarrow> Inr (if met then Some resolved_dict else None, h'))))"

text \<open>
  The value a store holds at the address of a dictionary: the dictionary with each list
  address replaced by the list there. It links the store model to the value model. The
  value of a call's outcome is the value of the returned dictionary in the final store.
\<close>

fun deref_items :: "'a heap \<Rightarrow> (string \<times> addr) list \<Rightarrow> (string, 'a list) dict option" where
  "deref_items h [] = Some []"
| "deref_items h ((k, a) # es) =
     (case list_at h a of
        None \<Rightarrow> None
      | Some xs \<Rightarrow> (case deref_items h es of None \<Rightarrow> None | Some d \<Rightarrow> Some ((k, xs) # d)))"

definition dict_value :: "'a heap \<Rightarrow> addr \<Rightarrow> (string, 'a list) dict option" where
  "dict_value h a = (case dict_at h a of None \<Rightarrow> None | Some es \<Rightarrow> deref_items h es)"

fun outcome_value ::
  "error + addr option \<times> 'a heap \<Rightarrow> (error + (string, 'a list) dict option) option"
where
  "outcome_value (Inl e) = Some (Inl e)"
| "outcome_value (Inr (None, h)) = Some (Inr None)"
| "outcome_value (Inr (Some a, h)) =
     (case dict_value h a of None \<Rightarrow> None | Some d \<Rightarrow> Some (Inr (Some d)))"

section \<open>Example inputs\<close>

definition art :: "int \<Rightarrow> artifact" where
  "art i = \<lparr>artifact_id = i\<rparr>"

text \<open>An artifact that carries a label besides its id, to tell equal ids apart.\<close>

definition labelled :: "int \<Rightarrow> string \<Rightarrow> string artifact_scheme" where
  "labelled i s = \<lparr>artifact_id = i, \<dots> = s\<rparr>"

definition ex_ready :: "(string, artifact list) dict" where
  "ex_ready = [(''model'', [art 3, art 7]), (''data'', [art 1, art 2, art 9])]"

definition ex_short :: "(string, artifact list) dict" where
  "ex_short = [(''model'', [art 3]), (''data'', [art 1, art 2])]"

definition ex_mixed :: "(string, artifact list) dict" where
  "ex_mixed = [(''model'', [art 3, art 7, art 5]), (''data'', [art 2, art 9, art 1, art 4])]"

definition ex_ties :: "(string, string artifact_scheme list) dict" where
  "ex_ties = [(''model'', [labelled 5 ''a'', labelled 7 ''b'', labelled 5 ''c'', labelled 5 ''d''])]"

text \<open>
  Two stores that hold the dictionary \<open>ex_ready\<close>, at address 2 and at address 0, and
  the first store after a call with a desired number of 2.
\<close>

definition ex_heap :: "artifact heap" where
  "ex_heap = [PyList [art 3, art 7], PyList [art 1, art 2, art 9], PyDict [(''model'', 0), (''data'', 1)]]"

definition ex_heap' :: "artifact heap" where
  "ex_heap' = [PyDict [(''model'', 2), (''data'', 1)], PyList [art 1, art 2, art 9], PyList [art 3, art 7]]"

definition ex_heap_after :: "artifact heap" where
  "ex_heap_after =
     [PyList [art 3, art 7], PyList [art 1, art 2, art 9], PyDict [(''model'', 0), (''data'', 1)],
      PyDict [(''model'', 5), (''data'', 7)],
      PyList [art 7, art 3], PyList [art 7, art 3],
      PyList [art 9, art 2, art 1], PyList [art 9, art 2]]"

section \<open>Lemmas about the built-ins\<close>

lemma sorted_reverse_descending:
  "sorted_wrt (\<lambda>a b. key b \<le> key a) (sorted_reverse key xs)"
proof -
  have "sorted (map (\<lambda>a. - key a) (sort_key (\<lambda>a. - key a) xs))"
    by (rule sorted_sort_key)
  then show ?thesis by (simp add: sorted_reverse_def sorted_map)
qed

lemma sorted_reverse_stable:
  "filter (\<lambda>a. key a = i) (sorted_reverse key xs) = filter (\<lambda>a. key a = i) xs"
  using sort_key_stable [of "\<lambda>a. - key a" "- i" xs] by (simp add: sorted_reverse_def)

lemma mset_sorted_reverse: "mset (sorted_reverse key xs) = mset xs"
  by (simp add: sorted_reverse_def)

lemma filter_take_prefix: "prefix (filter P (take m xs)) (filter P xs)"
proof -
  have "filter P xs = filter P (take m xs) @ filter P (drop m xs)"
    by (simp flip: filter_append)
  then show ?thesis by (rule prefixI)
qed

lemma mset_take_subseteq: "mset (take m xs) \<subseteq># mset xs"
proof -
  have "mset xs = mset (take m xs) + mset (drop m xs)"
    by (simp flip: mset_append)
  then show ?thesis by simp
qed

section \<open>What the loop computes\<close>

lemma update_fresh: "k \<notin> fst ` set al \<Longrightarrow> AList.update k v al = al @ [(k, v)]"
  by (induction al) auto

lemma resolve_loop_Some:
  assumes "desired_num_of_artifact self = Some n"
  shows "distinct (map fst items) \<Longrightarrow> fst ` set items \<inter> fst ` set result = {} \<Longrightarrow>
    resolve_loop self items result = Inr (result @ map (\<lambda>(k, l). (k, latest_n n l)) items)"
proof (induction items arbitrary: result)
  case Nil
  then show ?case by simp
next
  case (Cons p items)
  obtain k l where p: "p = (k, l)" by (cases p)
  from Cons.prems p have fresh: "k \<notin> fst ` set result" by auto
  let ?result = "result @ [(k, latest_n n l)]"
  from Cons.prems p have "distinct (map fst items)" "fst ` set items \<inter> fst ` set ?result = {}"
    by auto
  then have "resolve_loop self items ?result
      = Inr (?result @ map (\<lambda>(k, l). (k, latest_n n l)) items)"
    by (rule Cons.IH)
  then show ?case
    using assms fresh by (simp add: p update_fresh latest_n_def Let_def)
qed

lemma resolve_Some:
  "wf_dict d \<Longrightarrow> resolve (init (Some n)) d = Inr (map (\<lambda>(k, l). (k, latest_n n l)) d)"
  using resolve_loop_Some [of "init (Some n)" n d "[]"]
  by (simp add: resolve_def wf_dict_def init_def)

lemma resolve_None: "d \<noteq> [] \<Longrightarrow> resolve (init None) d = Inl TypeError"
  by (cases d) (auto simp: resolve_def init_def)

lemma all_min_count_met_Some:
  "desired_num_of_artifact self = Some n \<Longrightarrow>
   all_min_count_met self ls = Inr (list_all (\<lambda>l. n \<le> int (length l)) ls)"
  by (induction ls) auto

lemma length_latest_n: "0 \<le> n \<Longrightarrow> int (length (latest_n n l)) = min (int (length l)) n"
  by (auto simp: latest_n_def slice_to_def sorted_reverse_def)

lemma latest_n_take: "0 \<le> n \<Longrightarrow> latest_n n l = take (nat n) (sorted_reverse artifact_id l)"
  by (auto simp: latest_n_def slice_to_def sorted_reverse_def min_def)

lemma latest_n_is_take: "\<exists>m. latest_n n l = take m (sorted_reverse artifact_id l)"
  by (auto simp: latest_n_def slice_to_def)

lemma strategy_eq: "desired_num_of_artifact self = c \<Longrightarrow> self = init c"
  by (cases self) (simp add: init_def)


lemma resolve_artifacts_Some:
  assumes "wf_dict d"
  shows "resolve_artifacts (init (Some n)) store d =
     Inr (if list_all (\<lambda>(k, l). n \<le> int (length (latest_n n l))) d
          then Some (map (\<lambda>(k, l). (k, latest_n n l)) d) else None)"
proof -
  have "list_all (\<lambda>l. n \<le> int (length l)) (map snd (map (\<lambda>(k, l). (k, latest_n n l)) d))
      = list_all (\<lambda>(k, l). n \<le> int (length (latest_n n l))) d"
    by (induction d) auto
  moreover have "desired_num_of_artifact (init (Some n)) = Some n"
    by (simp add: init_def)
  ultimately show ?thesis
    using assms
    by (simp add: resolve_artifacts_def resolve_Some all_min_count_met_Some)
qed

lemma map_of_map_values:
  "map_of (map (\<lambda>(k, v). (k, f v)) d) k = map_option f (map_of d k)"
  by (induction d) auto

lemma resolve_channel:
  assumes "wf_dict d" and "desired_num_of_artifact self = Some n" and "map_of d k = Some l"
  shows "\<exists>r. resolve self d = Inr r \<and> map_of r k = Some (latest_n n l)"
proof -
  from assms(2) have "self = init (Some n)" by (rule strategy_eq)
  with assms(1) have "resolve self d = Inr (map (\<lambda>(k, l). (k, latest_n n l)) d)"
    by (simp add: resolve_Some)
  with assms(3) show ?thesis by (simp add: map_of_map_values)
qed

lemma resolve_loop_keys:
  "resolve_loop self items result = Inr r \<Longrightarrow> fst ` set r = fst ` set result \<union> fst ` set items"
proof (induction items arbitrary: result)
  case Nil
  then show ?case by simp
next
  case (Cons p items)
  obtain k l where p: "p = (k, l)" by (cases p)
  from Cons.prems obtain n where n: "desired_num_of_artifact self = Some n"
    by (cases "desired_num_of_artifact self") (auto simp: p)
  with Cons.prems have "resolve_loop self items (AList.update k (latest_n n l) result) = Inr r"
    by (simp add: p latest_n_def Let_def)
  then have "fst ` set r = fst ` set (AList.update k (latest_n n l) result) \<union> fst ` set items"
    by (rule Cons.IH)
  then show ?case by (auto simp: p dom_update)
qed

lemma resolve_loop_returns:
  "desired_num_of_artifact self = Some n \<Longrightarrow> \<exists>r. resolve_loop self items result = Inr r"
  by (induction items arbitrary: result) (auto simp: Let_def)

lemma resolve_artifacts_returns:
  assumes "desired_num_of_artifact self = Some n"
  shows "\<exists>r. resolve_artifacts self store d = Inr r"
proof -
  from resolve_loop_returns [OF assms] obtain r where "resolve self d = Inr r"
    unfolding resolve_def by blast
  then show ?thesis
    by (simp add: resolve_artifacts_def all_min_count_met_Some [OF assms])
qed

section \<open>The store model: frame and refinement\<close>

lemma list_at_append: "a < length h \<Longrightarrow> list_at (h @ g) a = list_at h a"
  by (simp add: list_at_def nth_append)

lemma dict_at_append: "a < length h \<Longrightarrow> dict_at (h @ g) a = dict_at h a"
  by (simp add: dict_at_def nth_append)

lemma dict_at_bound: "dict_at h a = Some es \<Longrightarrow> a < length h"
  by (simp add: dict_at_def split: if_splits)

lemma list_at_bound: "list_at h a = Some xs \<Longrightarrow> a < length h"
  by (simp add: list_at_def split: if_splits)

lemma list_at_set_dict:
  "dict_at h r = Some es \<Longrightarrow> list_at (h[r := PyDict es']) a = list_at h a"
  by (auto simp: list_at_def dict_at_def nth_list_update split: if_splits obj.splits)

lemma dict_at_set_dict:
  "r < length h \<Longrightarrow> dict_at (h[r := PyDict es']) r = Some es'"
  by (simp add: dict_at_def)

lemma deref_items_mono:
  assumes "\<And>a xs. list_at h a = Some xs \<Longrightarrow> list_at h' a = Some xs"
  shows "deref_items h es = Some d \<Longrightarrow> deref_items h' es = Some d"
proof (induction es arbitrary: d)
  case Nil
  then show ?case by simp
next
  case (Cons p es)
  obtain k a where p: "p = (k, a)" by (cases p)
  from Cons.prems obtain xs d' where
    xs: "list_at h a = Some xs" and d': "deref_items h es = Some d'" and d: "d = (k, xs) # d'"
    by (auto simp: p split: option.splits)
  from xs have "list_at h' a = Some xs" by (rule assms)
  moreover from d' have "deref_items h' es = Some d'" by (rule Cons.IH)
  ultimately show ?case by (simp add: p d)
qed

lemma deref_items_update:
  assumes "list_at h a = Some xs"
  shows "deref_items h es = Some d \<Longrightarrow>
    deref_items h (AList.update k a es) = Some (AList.update k xs d)"
proof (induction es arbitrary: d)
  case Nil
  with assms show ?case by simp
next
  case (Cons p es)
  obtain k' a' where p: "p = (k', a')" by (cases p)
  from Cons.prems obtain ys d' where
    ys: "list_at h a' = Some ys" and d': "deref_items h es = Some d'" and d: "d = (k', ys) # d'"
    by (auto simp: p split: option.splits)
  show ?case
  proof (cases "k' = k")
    case True
    with assms ys d' show ?thesis by (simp add: p d)
  next
    case False
    with Cons.IH [OF d'] ys show ?thesis by (simp add: p d)
  qed
qed

lemma deref_items_values:
  "deref_items h es = Some d \<Longrightarrow>
   all_min_count_met_h self h (map snd es) = all_min_count_met self (map snd d)"
proof (induction es arbitrary: d)
  case Nil
  then show ?case by simp
next
  case (Cons p es)
  obtain k a where p: "p = (k, a)" by (cases p)
  from Cons.prems obtain xs d' where
    xs: "list_at h a = Some xs" and d': "deref_items h es = Some d'" and d: "d = (k, xs) # d'"
    by (auto simp: p split: option.splits)
  from Cons.IH [OF d'] xs show ?case
    by (simp add: p d split: option.splits)
qed

lemma resolve_loop_h_refines:
  "deref_items h items = Some ditems \<Longrightarrow> dict_at h result = Some entries \<Longrightarrow>
   deref_items h entries = Some dres \<Longrightarrow>
   map_sum id (\<lambda>h'. dict_value h' result) (resolve_loop_h self items result h)
     = map_sum id Some (resolve_loop self ditems dres)"
proof (induction items arbitrary: h ditems entries dres)
  case Nil
  then show ?case by (simp add: dict_value_def)
next
  case (Cons p items)
  obtain k a where p: "p = (k, a)" by (cases p)
  from Cons.prems(1) obtain xs ds where
    xs: "list_at h a = Some xs" and ds: "deref_items h items = Some ds"
    and ditems: "ditems = (k, xs) # ds"
    by (auto simp: p split: option.splits)
  show ?case
  proof (cases "desired_num_of_artifact self")
    case None
    with xs show ?thesis by (simp add: p ditems alloc_def)
  next
    case (Some n)
    let ?s = "sorted_reverse artifact_id xs"
    let ?h2 = "h @ [PyList ?s, PyList (latest_n n xs)]"
    let ?sliced = "Suc (length h)"
    let ?h3 = "?h2[result := PyDict (AList.update k ?sliced entries)]"
    from Cons.prems(2) have r: "result < length h" by (rule dict_at_bound)
    then have d2: "dict_at ?h2 result = Some entries"
      using Cons.prems(2) by (simp add: dict_at_append)
    have keep: "list_at ?h3 b = Some ys" if "list_at h b = Some ys" for b ys
    proof -
      from that have "b < length h" by (rule list_at_bound)
      with that show ?thesis by (simp add: list_at_set_dict [OF d2] list_at_append)
    qed
    have new: "list_at ?h3 ?sliced = Some (latest_n n xs)"
      by (simp add: list_at_set_dict [OF d2]) (simp add: list_at_def nth_append)
    from ds have items': "deref_items ?h3 items = Some ds"
      by (rule deref_items_mono [rotated]) (rule keep)
    from Cons.prems(3) have "deref_items ?h3 entries = Some dres"
      by (rule deref_items_mono [rotated]) (rule keep)
    with new have entries':
      "deref_items ?h3 (AList.update k ?sliced entries) = Some (AList.update k (latest_n n xs) dres)"
      by (rule deref_items_update)
    from r have d3: "dict_at ?h3 result = Some (AList.update k ?sliced entries)"
      by (simp add: dict_at_set_dict)
    have "map_sum id (\<lambda>h'. dict_value h' result) (resolve_loop_h self items result ?h3)
        = map_sum id Some (resolve_loop self ds (AList.update k (latest_n n xs) dres))"
      using items' d3 entries' by (rule Cons.IH)
    moreover have "resolve_loop_h self (p # items) result h = resolve_loop_h self items result ?h3"
      using xs Some d2 by (simp add: p alloc_def latest_n_def)
    moreover have "resolve_loop self ditems dres
        = resolve_loop self ds (AList.update k (latest_n n xs) dres)"
      using Some by (simp add: ditems latest_n_def Let_def)
    ultimately show ?thesis by (simp only:)
  qed
qed

lemma resolve_loop_h_frame:
  "resolve_loop_h self items result h = Inr h' \<Longrightarrow>
   length h \<le> length h' \<and> (\<forall>a < length h. a \<noteq> result \<longrightarrow> h' ! a = h ! a)"
proof (induction items arbitrary: h)
  case Nil
  then show ?case by simp
next
  case (Cons p items)
  obtain k a where p: "p = (k, a)" by (cases p)
  from Cons.prems obtain xs n entries where
    run: "resolve_loop_h self items result
       ((h @ [PyList (sorted_reverse artifact_id xs), PyList (latest_n n xs)])
          [result := PyDict (AList.update k (Suc (length h)) entries)]) = Inr h'"
    by (auto simp: p alloc_def latest_n_def split: option.splits)
  let ?h3 = "(h @ [PyList (sorted_reverse artifact_id xs), PyList (latest_n n xs)])
          [result := PyDict (AList.update k (Suc (length h)) entries)]"
  from Cons.IH [OF run]
  have len: "length ?h3 \<le> length h'"
    and same: "\<And>b. b < length ?h3 \<Longrightarrow> b \<noteq> result \<Longrightarrow> h' ! b = ?h3 ! b"
    by blast+
  have "h' ! b = h ! b" if "b < length h" "b \<noteq> result" for b
    using same [of b] that by (simp add: nth_append)
  moreover from len have "length h \<le> length h'" by simp
  ultimately show ?case by blast
qed

lemma resolve_h_frame:
  assumes "resolve_h self input_dict h = Inr (result, h')"
  shows "prefix h h'"
proof -
  from assms obtain items where
    run: "resolve_loop_h self items (length h) (h @ [PyDict []]) = Inr h'"
    by (auto simp: resolve_h_def alloc_def split: option.splits sum.splits)
  from resolve_loop_h_frame [OF run]
  have len: "length h < length h'"
    and same: "\<And>a. a < length h \<Longrightarrow> h' ! a = h ! a"
    by (auto simp: nth_append)
  have "take (length h) h' = h"
    using len same by (intro nth_equalityI) auto
  then show ?thesis by (metis take_is_prefix)
qed

lemma resolve_h_refines:
  assumes "dict_value h input_dict = Some d"
  shows "map_sum id (\<lambda>(result, h'). dict_value h' result) (resolve_h self input_dict h)
     = map_sum id Some (resolve self d)"
proof -
  let ?h0 = "h @ [PyDict []]"
  from assms obtain items where
    items: "dict_at h input_dict = Some items" and d: "deref_items h items = Some d"
    by (auto simp: dict_value_def split: option.splits)
  from items have "input_dict < length h" by (rule dict_at_bound)
  with items have items0: "dict_at ?h0 input_dict = Some items"
    by (simp add: dict_at_append)
  have keep: "list_at ?h0 a = Some xs" if "list_at h a = Some xs" for a xs
    using that list_at_bound [OF that] by (simp add: list_at_append)
  from d have d0: "deref_items ?h0 items = Some d"
    by (rule deref_items_mono [rotated]) (rule keep)
  have "map_sum id (\<lambda>h'. dict_value h' (length h)) (resolve_loop_h self items (length h) ?h0)
      = map_sum id Some (resolve_loop self d [])"
    by (rule resolve_loop_h_refines [OF d0, of _ "[]"]) (simp_all add: dict_at_def)
  then show ?thesis
    using items0
    by (cases "resolve_loop_h self items (length h) ?h0")
      (simp_all add: resolve_h_def resolve_def alloc_def)
qed

lemma resolve_artifacts_h_refines:
  assumes "dict_value h input_dict = Some d"
  shows "outcome_value (resolve_artifacts_h self store input_dict h)
     = Some (resolve_artifacts self store' d)"
proof (cases "resolve_h self input_dict h")
  case (Inl e)
  with resolve_h_refines [OF assms, of self] show ?thesis
    by (cases "resolve self d") (simp_all add: resolve_artifacts_h_def resolve_artifacts_def)
next
  case (Inr p)
  obtain result h' where p: "p = (result, h')" by (cases p)
  from resolve_h_refines [OF assms, of self] Inr obtain r where
    r: "resolve self d = Inr r" and v: "dict_value h' result = Some r"
    by (cases "resolve self d") (simp_all add: p)
  from v obtain entries where
    e: "dict_at h' result = Some entries" and de: "deref_items h' entries = Some r"
    by (auto simp: dict_value_def split: option.splits)
  from deref_items_values [OF de, of self]
  show ?thesis
    using Inr r e v
    by (cases "all_min_count_met self (map snd r)")
      (simp_all add: resolve_artifacts_h_def resolve_artifacts_def p)
qed

text \<open>On a store that holds the input, and with an integer desired number, the call returns.\<close>

lemma resolve_artifacts_h_returns:
  assumes "dict_value h input_dict = Some d" and "desired_num_of_artifact self = Some n"
  shows "\<exists>r h'. resolve_artifacts_h self store input_dict h = Inr (r, h')"
proof -
  from resolve_artifacts_returns [OF assms(2), of store d] obtain v
    where "resolve_artifacts self store d = Inr v" by blast
  with resolve_artifacts_h_refines [OF assms(1), of self store store]
  have "outcome_value (resolve_artifacts_h self store input_dict h) = Some (Inr v)" by simp
  then show ?thesis
    by (cases "resolve_artifacts_h self store input_dict h") auto
qed

lemma prefix_nth: "prefix h h' \<Longrightarrow> a < length h \<Longrightarrow> h' ! a = h ! a"
  by (auto simp: prefix_def nth_append)

lemma prefix_list_at: "prefix h h' \<Longrightarrow> list_at h a = Some xs \<Longrightarrow> list_at h' a = Some xs"
  by (auto simp: prefix_def list_at_def nth_append split: if_splits)

lemma prefix_dict_value:
  assumes "prefix h h'" and "dict_value h a = Some d"
  shows "dict_value h' a = Some d"
proof -
  from assms(2) obtain es where es: "dict_at h a = Some es" and d: "deref_items h es = Some d"
    by (auto simp: dict_value_def split: option.splits)
  from assms(1) es have "dict_at h' a = Some es"
    by (auto simp: prefix_def dict_at_def nth_append split: if_splits)
  moreover from d have "deref_items h' es = Some d"
    by (rule deref_items_mono [rotated]) (rule prefix_list_at [OF assms(1)])
  ultimately show ?thesis by (simp add: dict_value_def)
qed

lemma resolve_artifacts_h_prefix:
  assumes "resolve_artifacts_h self store input_dict h = Inr (r, h')"
  shows "prefix h h'"
proof -
  from assms obtain result where "resolve_h self input_dict h = Inr (result, h')"
    by (auto simp: resolve_artifacts_h_def split: sum.splits option.splits)
  then show ?thesis by (rule resolve_h_frame)
qed

section \<open>Properties of the strategy\<close>

text \<open>
  C1. For a dictionary input and a desired number \<open>n \<ge> 1\<close>, \<open>resolve_artifacts\<close>
  returns something other than the unresolved value exactly when every channel's input
  list has at least \<open>n\<close> artifacts. When that holds, the call returns a result mapping
  with the input's channels, every output list of length exactly \<open>n\<close>; when some channel
  has fewer than \<open>n\<close> artifacts the call returns the unresolved value, whatever the other
  channels hold.
\<close>

theorem resolve_artifacts_all_or_nothing:
  assumes "wf_dict input_dict" and "1 \<le> n"
  shows "(resolve_artifacts (init (Some n)) store input_dict \<noteq> Inr None
            \<longleftrightarrow> (\<forall>(k, l) \<in> set input_dict. n \<le> int (length l)))
       \<and> ((\<forall>(k, l) \<in> set input_dict. n \<le> int (length l)) \<longrightarrow>
            (\<exists>r. resolve_artifacts (init (Some n)) store input_dict = Inr (Some r)
               \<and> map fst r = map fst input_dict
               \<and> (\<forall>(k, out) \<in> set r. int (length out) = n)))
       \<and> ((\<exists>(k, l) \<in> set input_dict. int (length l) < n) \<longrightarrow>
            resolve_artifacts (init (Some n)) store input_dict = Inr None)"
proof -
  from assms(2) have len: "n \<le> int (length (latest_n n l)) \<longleftrightarrow> n \<le> int (length l)"
    for l :: "'a artifact_scheme list"
    by (simp add: length_latest_n)
  have met: "list_all (\<lambda>(k, l). n \<le> int (length (latest_n n l))) input_dict
      \<longleftrightarrow> (\<forall>(k, l) \<in> set input_dict. n \<le> int (length l))"
    by (auto simp: list_all_iff len)
  have keys: "map fst (map (\<lambda>(k, l). (k, latest_n n l)) input_dict) = map fst input_dict"
    by (induction input_dict) auto
  have lens: "(\<forall>(k, l) \<in> set input_dict. n \<le> int (length l)) \<Longrightarrow>
      (\<forall>(k, out) \<in> set (map (\<lambda>(k, l). (k, latest_n n l)) input_dict). int (length out) = n)"
    using assms(2) by (auto simp: length_latest_n)
  show ?thesis
    unfolding resolve_artifacts_Some [OF assms(1)] met
    using keys lens by (auto simp: not_le)
qed

theorem resolve_artifacts_all_or_nothing_witness:
  "wf_dict ex_ready \<and> wf_dict ex_short \<and> (1::int) \<le> 2
   \<and> resolve_artifacts (init (Some 2)) () ex_ready
       = Inr (Some [(''model'', [art 7, art 3]), (''data'', [art 9, art 2])])
   \<and> resolve_artifacts (init (Some 2)) () ex_short = Inr None"
proof -
  have ready: "wf_dict ex_ready" and short: "wf_dict ex_short"
    by (simp_all add: wf_dict_def ex_ready_def ex_short_def)
  have n: "(1::int) \<le> 2" by simp
  have "resolve_artifacts (init (Some 2)) () ex_ready \<noteq> Inr None"
    using resolve_artifacts_all_or_nothing [OF ready n, of "()"]
    by (simp add: ex_ready_def)
  moreover have "resolve_artifacts (init (Some 2)) () ex_short = Inr None"
    using resolve_artifacts_all_or_nothing [OF short n, of "()"]
    by (simp add: ex_short_def)
  moreover have "resolve_artifacts (init (Some 2)) () ex_ready
      = Inr (Some [(''model'', [art 7, art 3]), (''data'', [art 9, art 2])])"
    by (simp add: ex_ready_def resolve_artifacts_def resolve_def init_def sorted_reverse_def slice_to_def art_def)
  ultimately show ?thesis using ready short by simp
qed

text \<open>
  C2, as the code has it. The desired number is never validated. When it is \<^verbatim>\<open>None\<close>
  and the input has at least one channel, the call raises \<^verbatim>\<open>TypeError\<close> (from
  \<^verbatim>\<open>min(len(...), None)\<close>); with no channel it returns the empty mapping. When it is
  zero or negative, no error is raised and the result is never the unresolved value:
  the call returns a result mapping in which each channel holds \<^verbatim>\<open>sorted_list[:n]\<close>,
  which is the empty list for \<open>n = 0\<close> and the sorted list without its last \<open>-n\<close>
  artifacts for \<open>n < 0\<close>.
\<close>

theorem resolve_artifacts_unvalidated_count:
  assumes "wf_dict (input_dict :: (string, 'a artifact_scheme list) dict)"
  shows "(input_dict \<noteq> [] \<longrightarrow> resolve_artifacts (init None) store input_dict = Inl TypeError)
       \<and> resolve_artifacts (init None) store ([] :: (string, 'a artifact_scheme list) dict)
           = Inr (Some [])
       \<and> (n \<le> 0 \<longrightarrow>
            resolve_artifacts (init (Some n)) store input_dict =
              Inr (Some (map (\<lambda>(k, l). (k, slice_to (sorted_reverse artifact_id l) n))
                     input_dict)))"
proof (intro conjI impI)
  assume "input_dict \<noteq> []"
  then show "resolve_artifacts (init None) store input_dict = Inl TypeError"
    by (simp add: resolve_artifacts_def resolve_None)
next
  show "resolve_artifacts (init None) store ([] :: (string, 'a artifact_scheme list) dict)
      = Inr (Some [])"
    by (simp add: resolve_artifacts_def resolve_def)
next
  assume n: "n \<le> 0"
  then have cut: "latest_n n l = slice_to (sorted_reverse artifact_id l) n"
    for l :: "'a artifact_scheme list"
    by (auto simp: latest_n_def min_def slice_to_def)
  have "n \<le> int (length (latest_n n l))" for l :: "'a artifact_scheme list"
    using n by simp
  then have "list_all (\<lambda>(k, l). n \<le> int (length (latest_n n l))) input_dict"
    by (simp add: list_all_iff split_beta)
  then show "resolve_artifacts (init (Some n)) store input_dict =
      Inr (Some (map (\<lambda>(k, l). (k, slice_to (sorted_reverse artifact_id l) n)) input_dict))"
    by (simp add: resolve_artifacts_Some [OF assms] cut)
qed

theorem resolve_artifacts_unvalidated_count_witness:
  "wf_dict ex_ready \<and> ex_ready \<noteq> [] \<and> (- 1::int) \<le> 0
   \<and> resolve_artifacts (init None) () ex_ready = Inl TypeError
   \<and> resolve_artifacts (init (Some (- 1))) () ex_ready
       = Inr (Some [(''model'', [art 7]), (''data'', [art 9, art 2])])"
proof -
  have ready: "wf_dict ex_ready" by (simp add: wf_dict_def ex_ready_def)
  have ne: "ex_ready \<noteq> []" by (simp add: ex_ready_def)
  show ?thesis
    using resolve_artifacts_unvalidated_count [OF ready, of "()" "- 1"] ready ne
    by (simp add: ex_ready_def sorted_reverse_def slice_to_def art_def)
qed

text \<open>
  C2, as the spec states it, fails: a desired number of zero or of \<open>-1\<close> is accepted and
  a result mapping comes back.
\<close>

theorem resolve_artifacts_zero_count_counterexample:
  "resolve_artifacts (init (Some 0)) () [(''model'', [art 3, art 7])]
     = Inr (Some [(''model'', [])])
   \<and> resolve_artifacts (init (Some (- 1))) () [(''model'', [art 3, art 7])]
     = Inr (Some [(''model'', [art 7])])"
  by (simp add: resolve_artifacts_def resolve_def init_def sorted_reverse_def slice_to_def art_def)

text \<open>
  C3. For a dictionary input and an integer desired number, \<open>_resolve\<close> returns a
  result in which every channel of the input has an output list; that list is in
  descending order of artifact id, and for each id the artifacts with that id appear in
  the output in the order they have in the input list (they are a prefix of the input's
  artifacts with that id).
\<close>

theorem resolve_sorted_descending_stable:
  assumes "wf_dict input_dict" and "desired_num_of_artifact self = Some n"
    and "map_of input_dict k = Some artifact_list"
  shows "\<exists>result out. resolve self input_dict = Inr result \<and> map_of result k = Some out
      \<and> sorted_wrt (\<lambda>a b. artifact_id b \<le> artifact_id a) out
      \<and> (\<forall>i. prefix (filter (\<lambda>a. artifact_id a = i) out)
                    (filter (\<lambda>a. artifact_id a = i) artifact_list))"
proof -
  from resolve_channel [OF assms] obtain result
    where out: "resolve self input_dict = Inr result"
      "map_of result k = Some (latest_n n artifact_list)" by blast
  obtain m where m: "latest_n n artifact_list = take m (sorted_reverse artifact_id artifact_list)"
    using latest_n_is_take by blast
  have "sorted_wrt (\<lambda>a b. artifact_id b \<le> artifact_id a) (latest_n n artifact_list)"
    unfolding m by (rule sorted_wrt_take) (rule sorted_reverse_descending)
  moreover have "prefix (filter (\<lambda>a. artifact_id a = i) (latest_n n artifact_list))
      (filter (\<lambda>a. artifact_id a = i) artifact_list)" for i
    using filter_take_prefix [of "\<lambda>a. artifact_id a = i" m "sorted_reverse artifact_id artifact_list"]
    by (simp add: m sorted_reverse_stable)
  ultimately show ?thesis using out by blast
qed

theorem resolve_sorted_descending_stable_witness:
  "wf_dict ex_ties \<and> desired_num_of_artifact (init (Some 3)) = Some 3
   \<and> resolve (init (Some 3)) ex_ties
       = Inr [(''model'', [labelled 7 ''b'', labelled 5 ''a'', labelled 5 ''c''])]
   \<and> map_of ex_ties ''model''
       = Some [labelled 5 ''a'', labelled 7 ''b'', labelled 5 ''c'', labelled 5 ''d'']
   \<and> sorted_wrt (\<lambda>a b. artifact_id b \<le> artifact_id a)
        [labelled 7 ''b'', labelled 5 ''a'', labelled 5 ''c'']
   \<and> prefix (filter (\<lambda>a. artifact_id a = 5) [labelled 7 ''b'', labelled 5 ''a'', labelled 5 ''c''])
        (filter (\<lambda>a. artifact_id a = 5)
           [labelled 5 ''a'', labelled 7 ''b'', labelled 5 ''c'', labelled 5 ''d''])"
proof -
  have wf: "wf_dict ex_ties" by (simp add: wf_dict_def ex_ties_def)
  have run: "resolve (init (Some 3)) ex_ties
      = Inr [(''model'', [labelled 7 ''b'', labelled 5 ''a'', labelled 5 ''c''])]"
    by (simp add: ex_ties_def resolve_def init_def sorted_reverse_def slice_to_def labelled_def)
  have chan: "map_of ex_ties ''model''
      = Some [labelled 5 ''a'', labelled 7 ''b'', labelled 5 ''c'', labelled 5 ''d'']"
    by (simp add: ex_ties_def)
  have cnt: "desired_num_of_artifact (init (Some 3)) = Some 3" by (simp add: init_def)
  show ?thesis
    using resolve_sorted_descending_stable [OF wf cnt chan] wf run chan cnt by simp
qed

text \<open>
  C4, as the code has it. For a dictionary input and a desired number \<open>n \<ge> 0\<close>,
  \<open>_resolve\<close> returns a result in which the output list of every channel of the input
  is the first \<open>min (length of the sorted list) n\<close> elements of the sorted list, and its
  length is at most \<open>n\<close>. The sorted list is the channel's input list in descending
  order of id: it is descending, it holds the artifacts of the input list, and artifacts
  of equal id keep their input order.
\<close>

theorem resolve_truncates:
  assumes "wf_dict input_dict" and "desired_num_of_artifact self = Some n"
    and "map_of input_dict k = Some artifact_list" and "0 \<le> n"
  shows "\<exists>result out. resolve self input_dict = Inr result \<and> map_of result k = Some out
      \<and> out = take (min (length (sorted_reverse artifact_id artifact_list)) (nat n))
                (sorted_reverse artifact_id artifact_list)
      \<and> int (length out) \<le> n
      \<and> sorted_wrt (\<lambda>a b. artifact_id b \<le> artifact_id a)
            (sorted_reverse artifact_id artifact_list)
      \<and> mset (sorted_reverse artifact_id artifact_list) = mset artifact_list
      \<and> (\<forall>i. filter (\<lambda>a. artifact_id a = i) (sorted_reverse artifact_id artifact_list)
                = filter (\<lambda>a. artifact_id a = i) artifact_list)"
proof -
  from resolve_channel [OF assms(1-3)] obtain result
    where "resolve self input_dict = Inr result"
      "map_of result k = Some (latest_n n artifact_list)" by blast
  moreover from assms(4) have "latest_n n artifact_list
      = take (min (length (sorted_reverse artifact_id artifact_list)) (nat n))
          (sorted_reverse artifact_id artifact_list)"
    by (simp add: latest_n_take min_def)
  moreover from assms(4) have "int (length (latest_n n artifact_list)) \<le> n"
    by (simp add: length_latest_n)
  moreover have "sorted_wrt (\<lambda>a b. artifact_id b \<le> artifact_id a)
      (sorted_reverse artifact_id artifact_list)"
    by (rule sorted_reverse_descending)
  moreover have "mset (sorted_reverse artifact_id artifact_list) = mset artifact_list"
    by (rule mset_sorted_reverse)
  moreover have "filter (\<lambda>a. artifact_id a = i) (sorted_reverse artifact_id artifact_list)
      = filter (\<lambda>a. artifact_id a = i) artifact_list" for i
    by (rule sorted_reverse_stable)
  ultimately show ?thesis by simp
qed

theorem resolve_truncates_witness:
  "wf_dict ex_mixed
   \<and> desired_num_of_artifact (init (Some 2)) = Some 2 \<and> (0::int) \<le> 2
   \<and> map_of ex_mixed ''data'' = Some [art 2, art 9, art 1, art 4]
   \<and> resolve (init (Some 2)) ex_mixed
       = Inr [(''model'', [art 7, art 5]), (''data'', [art 9, art 4])]
   \<and> sorted_reverse artifact_id [art 2, art 9, art 1, art 4] = [art 9, art 4, art 2, art 1]
   \<and> [art 9, art 4] = take (min (length [art 9, art 4, art 2, art 1]) (nat 2))
        [art 9, art 4, art 2, art 1]
   \<and> int (length [art 9, art 4]) \<le> 2"
proof -
  have wf: "wf_dict ex_mixed" by (simp add: wf_dict_def ex_mixed_def)
  have cnt: "desired_num_of_artifact (init (Some 2)) = Some 2" by (simp add: init_def)
  have chan: "map_of ex_mixed ''data'' = Some [art 2, art 9, art 1, art 4]"
    by (simp add: ex_mixed_def)
  have n: "(0::int) \<le> 2" by simp
  have run: "resolve (init (Some 2)) ex_mixed
      = Inr [(''model'', [art 7, art 5]), (''data'', [art 9, art 4])]"
    by (simp add: ex_mixed_def resolve_def init_def sorted_reverse_def slice_to_def art_def)
  have srt: "sorted_reverse artifact_id [art 2, art 9, art 1, art 4]
      = [art 9, art 4, art 2, art 1]"
    by (simp add: sorted_reverse_def art_def)
  show ?thesis
    using resolve_truncates [OF wf cnt chan n] wf cnt chan run srt by simp
qed

text \<open>
  C4, as the spec states it, fails: it names no bound on the desired number, and the
  code accepts a negative one. With a desired number of \<open>-1\<close> and the input
  \<open>{"model": [3, 7]}\<close> the channel's output is \<open>[7]\<close>: its length 1 exceeds \<open>-1\<close>, and
  it is not the first \<open>min 2 (-1)\<close> elements of the sorted list \<open>[7, 3]\<close>, of which
  there are none.
\<close>

theorem resolve_truncates_negative_counterexample:
  "resolve (init (Some (- 1))) [(''model'', [art 3, art 7])] = Inr [(''model'', [art 7])]
   \<and> \<not> int (length [art 7]) \<le> - 1
   \<and> sorted_reverse artifact_id [art 3, art 7] = [art 7, art 3]
   \<and> [art 7] \<noteq> take (nat (min (int (length [art 7, art 3])) (- 1))) [art 7, art 3]"
  by (simp add: resolve_def init_def sorted_reverse_def slice_to_def art_def)

text \<open>
  C5. For a dictionary input and an integer desired number, \<open>_resolve\<close> returns a
  result in which, for every channel of the input, every artifact of the output list is
  an element of the channel's input list, and the output is a sub-multiset of the input:
  no artifact occurs more often in the output than in the input.
\<close>

theorem resolve_no_fabrication:
  assumes "wf_dict input_dict" and "desired_num_of_artifact self = Some n"
    and "map_of input_dict k = Some artifact_list"
  shows "\<exists>result out. resolve self input_dict = Inr result \<and> map_of result k = Some out
      \<and> (\<forall>a \<in> set out. a \<in> set artifact_list)
      \<and> mset out \<subseteq># mset artifact_list"
proof -
  from resolve_channel [OF assms] obtain result
    where out: "resolve self input_dict = Inr result"
      "map_of result k = Some (latest_n n artifact_list)" by blast
  obtain m where m: "latest_n n artifact_list = take m (sorted_reverse artifact_id artifact_list)"
    using latest_n_is_take by blast
  have sub: "mset (latest_n n artifact_list) \<subseteq># mset artifact_list"
    using mset_take_subseteq [of m "sorted_reverse artifact_id artifact_list"]
    by (simp add: m mset_sorted_reverse)
  then have "set (latest_n n artifact_list) \<subseteq> set artifact_list"
    by (rule set_mset_mono [of "mset (latest_n n artifact_list)" "mset artifact_list", simplified])
  with sub out show ?thesis by blast
qed

theorem resolve_no_fabrication_witness:
  "wf_dict ex_ready \<and> desired_num_of_artifact (init (Some 2)) = Some 2
   \<and> resolve (init (Some 2)) ex_ready
       = Inr [(''model'', [art 7, art 3]), (''data'', [art 9, art 2])]
   \<and> map_of ex_ready ''data'' = Some [art 1, art 2, art 9]
   \<and> art 9 \<in> set [art 1, art 2, art 9] \<and> art 2 \<in> set [art 1, art 2, art 9]
   \<and> mset [art 9, art 2] \<subseteq># mset [art 1, art 2, art 9]"
proof -
  have wf: "wf_dict ex_ready" by (simp add: wf_dict_def ex_ready_def)
  have run: "resolve (init (Some 2)) ex_ready
      = Inr [(''model'', [art 7, art 3]), (''data'', [art 9, art 2])]"
    by (simp add: ex_ready_def resolve_def init_def sorted_reverse_def slice_to_def art_def)
  have chan: "map_of ex_ready ''data'' = Some [art 1, art 2, art 9]"
    by (simp add: ex_ready_def)
  have cnt: "desired_num_of_artifact (init (Some 2)) = Some 2" by (simp add: init_def)
  show ?thesis
    using resolve_no_fabrication [OF wf cnt chan] wf run chan cnt by simp
qed

text \<open>
  C6. Two invocations with the same strategy and with input mappings of the same value
  (the same keys in the same order, the same artifact lists) have outcomes of the same
  value, whatever stores they run in, at whatever addresses the inputs lie, and whatever
  metadata store is passed: the outcome is that of the value model on the input's value.
  In particular, when a first call has returned, a second call on the same input object
  in the store the first call left behind has an outcome of the same value as the first.
\<close>

theorem resolve_artifacts_deterministic:
  assumes "dict_value h input_dict = Some d" and "dict_value g input_dict' = Some d"
  shows "outcome_value (resolve_artifacts_h self store input_dict h)
           = outcome_value (resolve_artifacts_h self store' input_dict' g)
       \<and> (resolve_artifacts_h self store input_dict h = Inr (r, h1) \<longrightarrow>
            outcome_value (resolve_artifacts_h self store' input_dict h1)
              = outcome_value (Inr (r, h1)))
       \<and> resolve_artifacts self store d = resolve_artifacts self store' d"
proof (intro conjI impI)
  show "outcome_value (resolve_artifacts_h self store input_dict h)
      = outcome_value (resolve_artifacts_h self store' input_dict' g)"
    by (simp add: resolve_artifacts_h_refines [OF assms(1), of self store store]
        resolve_artifacts_h_refines [OF assms(2), of self store' store])
next
  assume run: "resolve_artifacts_h self store input_dict h = Inr (r, h1)"
  then have "prefix h h1" by (rule resolve_artifacts_h_prefix)
  then have "dict_value h1 input_dict = Some d"
    using assms(1) by (rule prefix_dict_value)
  then have "outcome_value (resolve_artifacts_h self store' input_dict h1)
      = Some (resolve_artifacts self store d)"
    by (rule resolve_artifacts_h_refines)
  also have "\<dots> = outcome_value (resolve_artifacts_h self store input_dict h)"
    by (rule resolve_artifacts_h_refines [OF assms(1), symmetric])
  finally show "outcome_value (resolve_artifacts_h self store' input_dict h1)
      = outcome_value (Inr (r, h1))"
    by (simp add: run)
next
  show "resolve_artifacts self store d = resolve_artifacts self store' d"
    by (simp add: resolve_artifacts_def)
qed

theorem resolve_artifacts_deterministic_witness:
  "dict_value ex_heap 2 = Some ex_ready \<and> dict_value ex_heap' 0 = Some ex_ready
   \<and> resolve_artifacts_h (init (Some 2)) () 2 ex_heap = Inr (Some 3, ex_heap_after)
   \<and> outcome_value (resolve_artifacts_h (init (Some 2)) () 2 ex_heap)
       = outcome_value (resolve_artifacts_h (init (Some 2)) () 0 ex_heap')
   \<and> outcome_value (resolve_artifacts_h (init (Some 2)) () 2 ex_heap_after)
       = Some (Inr (Some [(''model'', [art 7, art 3]), (''data'', [art 9, art 2])]))"
proof -
  have v1: "dict_value ex_heap 2 = Some ex_ready"
    by (simp add: dict_value_def dict_at_def list_at_def ex_heap_def ex_ready_def)
  have v2: "dict_value ex_heap' 0 = Some ex_ready"
    by (simp add: dict_value_def dict_at_def list_at_def ex_heap'_def ex_ready_def)
  have run: "resolve_artifacts_h (init (Some 2)) () 2 ex_heap = Inr (Some 3, ex_heap_after)"
    by (simp add: resolve_artifacts_h_def resolve_h_def alloc_def dict_at_def list_at_def
        ex_heap_def ex_heap_after_def init_def sorted_reverse_def slice_to_def art_def)
  have out: "outcome_value (Inr (Some 3, ex_heap_after))
      = Some (Inr (Some [(''model'', [art 7, art 3]), (''data'', [art 9, art 2])]))"
    by (simp add: dict_value_def dict_at_def list_at_def ex_heap_after_def)
  show ?thesis
    using resolve_artifacts_deterministic [OF v1 v2, of "init (Some 2)" "()" "()" "Some 3" ex_heap_after]
      v1 v2 run out
    by simp
qed

text \<open>
  C7. When \<open>resolve_artifacts\<close> returns, the store it leaves is the store it started
  from with new objects appended: every object that existed before the call, so the
  input mapping and every artifact list in it, is unchanged, and the input mapping has
  the value it had before.
\<close>

theorem resolve_artifacts_h_frame:
  assumes "resolve_artifacts_h self store input_dict h = Inr (r, h')"
  shows "prefix h h'
       \<and> (\<forall>a < length h. h' ! a = h ! a)
       \<and> (\<forall>d. dict_value h input_dict = Some d \<longrightarrow> dict_value h' input_dict = Some d)"
proof -
  from assms have "prefix h h'" by (rule resolve_artifacts_h_prefix)
  then show ?thesis by (simp add: prefix_nth prefix_dict_value)
qed

theorem resolve_artifacts_h_frame_witness:
  "resolve_artifacts_h (init (Some 2)) () 2 ex_heap = Inr (Some 3, ex_heap_after)
   \<and> prefix ex_heap ex_heap_after
   \<and> ex_heap_after ! 0 = ex_heap ! 0 \<and> ex_heap_after ! 1 = ex_heap ! 1
   \<and> ex_heap_after ! 2 = ex_heap ! 2
   \<and> dict_value ex_heap 2 = Some ex_ready \<and> dict_value ex_heap_after 2 = Some ex_ready"
proof -
  have run: "resolve_artifacts_h (init (Some 2)) () 2 ex_heap = Inr (Some 3, ex_heap_after)"
    by (simp add: resolve_artifacts_h_def resolve_h_def alloc_def dict_at_def list_at_def
        ex_heap_def ex_heap_after_def init_def sorted_reverse_def slice_to_def art_def)
  have val: "dict_value ex_heap 2 = Some ex_ready"
    by (simp add: dict_value_def dict_at_def list_at_def ex_heap_def ex_ready_def)
  have len: "length ex_heap = 3" by (simp add: ex_heap_def)
  show ?thesis
    using resolve_artifacts_h_frame [OF run] run val len by simp
qed

text \<open>
  C8. With a desired number of 1 and the input \<open>{"model": [3, 7, 5]}\<close> (artifacts
  written by their ids) the result is \<open>{"model": [7]}\<close>; with a desired number of 2 and
  the input \<open>{"model": [3, 7]}\<close> the result is \<open>{"model": [7, 3]}\<close>.
\<close>

theorem resolve_artifacts_examples:
  "resolve_artifacts (init (Some 1)) () [(''model'', [art 3, art 7, art 5])]
     = Inr (Some [(''model'', [art 7])])
   \<and> resolve_artifacts (init (Some 2)) () [(''model'', [art 3, art 7])]
     = Inr (Some [(''model'', [art 7, art 3])])"
  by (simp add: resolve_artifacts_def resolve_def init_def sorted_reverse_def slice_to_def art_def)

text \<open>
  C9. For the empty input mapping the call returns the empty result mapping, not the
  unresolved value, whatever was given as the desired number (in particular for every
  number \<open>\<ge> 1\<close>): the loop body never runs and the check over zero channels holds.
\<close>

theorem resolve_artifacts_empty:
  "resolve_artifacts (init desired_num_of_artifacts) store [] = Inr (Some [])"
  by (simp add: resolve_artifacts_def resolve_def)

text \<open>
  C10. Whenever \<open>resolve_artifacts\<close> returns a result mapping, the set of its channel
  keys is the set of channel keys of the input mapping.
\<close>

theorem resolve_artifacts_keys:
  assumes "resolve_artifacts self store input_dict = Inr (Some result)"
  shows "fst ` set result = fst ` set input_dict"
proof -
  from assms have "resolve self input_dict = Inr result"
    by (auto simp: resolve_artifacts_def split: sum.splits if_splits)
  then show ?thesis
    using resolve_loop_keys [of self input_dict "[]" result] by (simp add: resolve_def)
qed

theorem resolve_artifacts_keys_witness:
  "resolve_artifacts (init (Some 2)) () ex_ready
     = Inr (Some [(''model'', [art 7, art 3]), (''data'', [art 9, art 2])])
   \<and> fst ` set [(''model'', [art 7, art 3]), (''data'', [art 9, art 2])] = fst ` set ex_ready"
proof -
  have run: "resolve_artifacts (init (Some 2)) () ex_ready
      = Inr (Some [(''model'', [art 7, art 3]), (''data'', [art 9, art 2])])"
    by (simp add: ex_ready_def resolve_artifacts_def resolve_def init_def sorted_reverse_def slice_to_def art_def)
  show ?thesis
    using resolve_artifacts_keys [OF run] run by simp
qed

end
